theory Spec2Isabelle
  imports Main "HOL-Library.Log_Nat" "HOL-Library.AList"
begin

section \<open>Python values used by \<open>main.py\<close>\<close>

subsection \<open>Strings\<close>

text \<open>
  A Python \<open>str\<close> is a sequence of Unicode code points (the program recognises Hindi
  text), so a string is a list of code points. \<open>lit\<close> embeds an ASCII literal.
\<close>

type_synonym pystr = "nat list"

definition lit :: "string \<Rightarrow> pystr" where
  "lit s = map of_char s"

text \<open>\<open>str(n)\<close> for an integer, as used by the f-strings of the program.\<close>

fun digits :: "nat \<Rightarrow> pystr" where
  "digits n = (if n < 10 then [48 + n] else digits (n div 10) @ [48 + n mod 10])"

declare digits.simps [simp del]

definition str_int :: "int \<Rightarrow> pystr" where
  "str_int n = (if n < 0 then 45 # digits (nat (- n)) else digits (nat n))"

text \<open>
  \<open>str.isspace\<close> on one code point: the characters \<open>str.strip()\<close> removes.
\<close>

definition isspace :: "nat \<Rightarrow> bool" where
  "isspace c \<longleftrightarrow>
     (9 \<le> c \<and> c \<le> 13) \<or> (28 \<le> c \<and> c \<le> 32) \<or> c = 133 \<or> c = 160 \<or> c = 5760 \<or>
     (8192 \<le> c \<and> c \<le> 8202) \<or> c = 8232 \<or> c = 8233 \<or> c = 8239 \<or> c = 8287 \<or> c = 12288"

definition strip :: "pystr \<Rightarrow> pystr" where
  "strip s = rev (dropWhile isspace (rev (dropWhile isspace s)))"

text \<open>\<open>s.replace('\n', ' ')\<close>: every line feed (10) becomes one space (32).\<close>

definition replace_newlines :: "pystr \<Rightarrow> pystr" where
  "replace_newlines s = map (\<lambda>c. if c = 10 then 32 else c) s"

subsection \<open>Exceptions\<close>

text \<open>
  The exceptions the modelled code can meet, all instances of Python's \<open>Exception\<close>:
  the three the arithmetic raises, and \<open>Raised name\<close> for anything a collaborator
  (PIL, pytesseract) raises.
\<close>

datatype error = ZeroDivisionError | OverflowError | ValueError | Raised pystr

text \<open>
  Modelled from the spec: the \<open>DegenerateGeometry\<close> error of the coordinate mapper.
  The source defines no exception of that name; it is given here only so that statements
  about it can be written.
\<close>

definition DegenerateGeometry :: error where
  "DegenerateGeometry = Raised (lit ''DegenerateGeometry'')"

subsection \<open>Numbers\<close>

text \<open>
  A Python \<open>float\<close> is an IEEE 754 binary64 value: a finite value (a rational; the sign
  of zero is not modelled, nothing in the program observes it), an infinity or NaN.
  \<open>round_double\<close> rounds an exact result to the nearest double, ties to even, with
  gradual underflow below \<open>2\<^sup>-\<^sup>1\<^sup>0\<^sup>2\<^sup>2\<close> and overflow to an infinity from \<open>2\<^sup>1\<^sup>0\<^sup>2\<^sup>4\<close>.
\<close>

datatype pyfloat = Fin rat | PInf | NInf | NaN

definition ilog2 :: "rat \<Rightarrow> int" where
  "ilog2 a = (let (n, d) = quotient_of a; k = bitlen n - bitlen d
              in if 2 powi k \<le> a then k else k - 1)"

definition round_half_even :: "rat \<Rightarrow> int" where
  "round_half_even x = (let f = \<lfloor>x\<rfloor>; d = x - of_int f
     in if d < 1 / 2 then f else if 1 / 2 < d then f + 1 else if even f then f else f + 1)"

definition round_double :: "rat \<Rightarrow> pyfloat" where
  "round_double q = (if q = 0 then Fin 0 else
     let a = \<bar>q\<bar>; e = max (ilog2 a) (- 1022); ulp = 2 powi (e - 52);
         r = of_int (round_half_even (a / ulp)) * ulp
     in if 2 powi 1024 \<le> r then (if 0 < q then PInf else NInf)
        else Fin (if 0 < q then r else - r))"

text \<open>Float multiplication never raises: it overflows to an infinity.\<close>

fun fmul :: "pyfloat \<Rightarrow> pyfloat \<Rightarrow> pyfloat" where
  "fmul (Fin a) (Fin b) = round_double (a * b)"
| "fmul NaN _ = NaN"
| "fmul _ NaN = NaN"
| "fmul (Fin a) PInf = (if a = 0 then NaN else if 0 < a then PInf else NInf)"
| "fmul (Fin a) NInf = (if a = 0 then NaN else if 0 < a then NInf else PInf)"
| "fmul PInf (Fin b) = (if b = 0 then NaN else if 0 < b then PInf else NInf)"
| "fmul NInf (Fin b) = (if b = 0 then NaN else if 0 < b then NInf else PInf)"
| "fmul PInf PInf = PInf"
| "fmul PInf NInf = NInf"
| "fmul NInf PInf = NInf"
| "fmul NInf NInf = PInf"

text \<open>Float division raises on a zero divisor, whatever the dividend.\<close>

fun fdiv :: "pyfloat \<Rightarrow> pyfloat \<Rightarrow> error + pyfloat" where
  "fdiv x (Fin b) =
     (if b = 0 then Inl ZeroDivisionError
      else case x of
        Fin a \<Rightarrow> Inr (round_double (a / b))
      | PInf \<Rightarrow> Inr (if 0 < b then PInf else NInf)
      | NInf \<Rightarrow> Inr (if 0 < b then NInf else PInf)
      | NaN \<Rightarrow> Inr NaN)"
| "fdiv x NaN = Inr NaN"
| "fdiv (Fin a) _ = Inr (Fin 0)"
| "fdiv _ _ = Inr NaN"

text \<open>
  \<open>float(n)\<close> for an integer, as the mixed operations do implicitly: correctly rounded,
  \<open>OverflowError\<close> when the integer is too large for a double.
\<close>

definition float_of_int :: "int \<Rightarrow> error + pyfloat" where
  "float_of_int n = (case round_double (of_int n) of Fin r \<Rightarrow> Inr (Fin r) | _ \<Rightarrow> Inl OverflowError)"

text \<open>
  \<open>a / b\<close> on two integers: the correctly rounded quotient, \<open>ZeroDivisionError\<close> on a
  zero divisor, \<open>OverflowError\<close> when the quotient is too large for a double.
\<close>

definition int_truediv :: "int \<Rightarrow> int \<Rightarrow> error + pyfloat" where
  "int_truediv a b =
     (if b = 0 then Inl ZeroDivisionError
      else case round_double (of_int a / of_int b) of
        Fin r \<Rightarrow> Inr (Fin r) | _ \<Rightarrow> Inl OverflowError)"

text \<open>A number read from JSON or computed by the program is an \<open>int\<close> or a \<open>float\<close>.\<close>

datatype pynum = PyInt int | PyFloat pyfloat

fun num_mul :: "pynum \<Rightarrow> pynum \<Rightarrow> error + pynum" where
  "num_mul (PyInt a) (PyInt b) = Inr (PyInt (a * b))"
| "num_mul (PyInt a) (PyFloat y) =
     (case float_of_int a of Inl e \<Rightarrow> Inl e | Inr x \<Rightarrow> Inr (PyFloat (fmul x y)))"
| "num_mul (PyFloat x) (PyInt b) =
     (case float_of_int b of Inl e \<Rightarrow> Inl e | Inr y \<Rightarrow> Inr (PyFloat (fmul x y)))"
| "num_mul (PyFloat x) (PyFloat y) = Inr (PyFloat (fmul x y))"

fun num_truediv :: "pynum \<Rightarrow> pynum \<Rightarrow> error + pynum" where
  "num_truediv (PyInt a) (PyInt b) =
     (case int_truediv a b of Inl e \<Rightarrow> Inl e | Inr r \<Rightarrow> Inr (PyFloat r))"
| "num_truediv (PyInt a) (PyFloat y) =
     (case float_of_int a of Inl e \<Rightarrow> Inl e
      | Inr x \<Rightarrow> (case fdiv x y of Inl e \<Rightarrow> Inl e | Inr r \<Rightarrow> Inr (PyFloat r)))"
| "num_truediv (PyFloat x) (PyInt b) =
     (case float_of_int b of Inl e \<Rightarrow> Inl e
      | Inr y \<Rightarrow> (case fdiv x y of Inl e \<Rightarrow> Inl e | Inr r \<Rightarrow> Inr (PyFloat r)))"
| "num_truediv (PyFloat x) (PyFloat y) =
     (case fdiv x y of Inl e \<Rightarrow> Inl e | Inr r \<Rightarrow> Inr (PyFloat r))"

text \<open>
  \<open>int(x)\<close>: the identity on an integer, truncation toward zero on a finite float,
  \<open>ValueError\<close> on NaN and \<open>OverflowError\<close> on an infinity.
\<close>

fun py_int :: "pynum \<Rightarrow> error + int" where
  "py_int (PyInt n) = Inr n"
| "py_int (PyFloat (Fin q)) = Inr (if 0 \<le> q then \<lfloor>q\<rfloor> else \<lceil>q\<rceil>)"
| "py_int (PyFloat NaN) = Inl ValueError"
| "py_int (PyFloat _) = Inl OverflowError"

section \<open>Collaborators\<close>

text \<open>
  PIL, pytesseract and the widgets of Streamlit are outside the program. An image is a
  value of an arbitrary type \<open>'img\<close>; each library call the program makes is a field
  of the record and may raise.
\<close>

record 'img collaborators =
  img_size :: "'img \<Rightarrow> int \<times> int"
  img_mode :: "'img \<Rightarrow> pystr"
  crop :: "'img \<Rightarrow> int \<times> int \<times> int \<times> int \<Rightarrow> error + 'img"
  grayscale :: "'img \<Rightarrow> error + 'img"
  invert :: "'img \<Rightarrow> error + 'img"
  image_to_string :: "'img \<Rightarrow> pystr \<Rightarrow> error + pystr"

text \<open>
  What a run leaves behind besides its result: the calls of the OCR engine (image and
  language code) and the warnings shown with \<open>st.warning\<close>.
\<close>

datatype 'img event = Recognize 'img pystr | Warning error

text \<open>
  \<open>st.selectbox(label, options)\<close> returns the option at the index the user picked.
\<close>

definition selectbox :: "'a list \<Rightarrow> nat \<Rightarrow> 'a option" where
  "selectbox options k = (if k < length options then Some (options ! k) else None)"

definition language_options :: "pystr list" where
  "language_options = [lit ''English'', lit ''Hindi'', lit ''English + Hindi'']"

section \<open>Helper functions of the program\<close>

text \<open>A rectangle: a canvas object of the drawing surface, or a scaled bounding box.\<close>

record region =
  r_left :: pynum
  r_top :: pynum
  r_width :: pynum
  r_height :: pynum

text \<open>\<open>preprocess_image(image, options)\<close>.\<close>

definition preprocess_image :: "'img collaborators \<Rightarrow> 'img \<Rightarrow> pystr list \<Rightarrow> error + 'img" where
  "preprocess_image env img options =
     (case (if lit ''grayscale'' \<in> set options then grayscale env img else Inr img) of
        Inl e \<Rightarrow> Inl e
      | Inr processed_image \<Rightarrow>
          if lit ''invert'' \<in> set options then
            (case (if img_mode env processed_image \<noteq> lit ''L''
                   then grayscale env processed_image else Inr processed_image) of
               Inl e \<Rightarrow> Inl e
             | Inr gray \<Rightarrow> invert env gray)
          else Inr processed_image)"

text \<open>The language code chosen inside \<open>perform_ocr\<close>.\<close>

definition lang_code :: "pystr \<Rightarrow> pystr" where
  "lang_code language =
     (if language = lit ''Hindi'' then lit ''hin''
      else if language = lit ''English + Hindi'' then lit ''eng+hin''
      else lit ''eng'')"

text \<open>\<open>text.strip().replace('\n', ' ')\<close>.\<close>

definition clean_text :: "pystr \<Rightarrow> pystr" where
  "clean_text text = replace_newlines (strip text)"

text \<open>
  The body of the \<open>try\<close> block of \<open>perform_ocr\<close>: \<open>Inl\<close> is an exception raised inside
  it, \<open>Inr None\<close> is falling out of the block without returning, \<open>Inr (Some s)\<close> is
  \<open>return s\<close>. The second component lists the calls of the OCR engine.
\<close>

definition perform_ocr_try ::
  "'img collaborators \<Rightarrow> 'img \<Rightarrow> region \<Rightarrow> pystr \<Rightarrow> pystr list
     \<Rightarrow> (error + pystr option) \<times> 'img event list" where
  "perform_ocr_try env img bounding_box language preprocessing_options =
     (case py_int (r_left bounding_box) of Inl e \<Rightarrow> (Inl e, []) | Inr left_i \<Rightarrow>
      case py_int (r_top bounding_box) of Inl e \<Rightarrow> (Inl e, []) | Inr top_i \<Rightarrow>
      case py_int (r_width bounding_box) of Inl e \<Rightarrow> (Inl e, []) | Inr width_i \<Rightarrow>
      case py_int (r_height bounding_box) of Inl e \<Rightarrow> (Inl e, []) | Inr height_i \<Rightarrow>
      if 0 < width_i \<and> 0 < height_i then
        (case crop env img (left_i, top_i, left_i + width_i, top_i + height_i) of
           Inl e \<Rightarrow> (Inl e, [])
         | Inr cropped_image \<Rightarrow>
        (case preprocess_image env cropped_image preprocessing_options of
           Inl e \<Rightarrow> (Inl e, [])
         | Inr processed_crop \<Rightarrow>
        (case image_to_string env processed_crop (lang_code language) of
           Inl e \<Rightarrow> (Inl e, [Recognize processed_crop (lang_code language)])
         | Inr text \<Rightarrow>
             (Inr (Some (clean_text text)), [Recognize processed_crop (lang_code language)]))))
      else (Inr None, []))"

text \<open>
  \<open>perform_ocr\<close>: the \<open>try\<close> block, \<open>except Exception\<close> showing a warning, and the
  final \<open>return ""\<close>.
\<close>

definition perform_ocr ::
  "'img collaborators \<Rightarrow> 'img \<Rightarrow> region \<Rightarrow> pystr \<Rightarrow> pystr list \<Rightarrow> pystr \<times> 'img event list" where
  "perform_ocr env img bounding_box language preprocessing_options =
     (case perform_ocr_try env img bounding_box language preprocessing_options of
        (Inr (Some text), evs) \<Rightarrow> (text, evs)
      | (Inr None, evs) \<Rightarrow> ([], evs)
      | (Inl e, evs) \<Rightarrow> ([], evs @ [Warning e]))"

section \<open>The script\<close>

subsection \<open>Dictionaries and session state\<close>

text \<open>
  A Python \<open>dict\<close> with string keys keeps its keys in insertion order; assigning to a
  key that is present replaces the value in place (\<open>AList.update\<close>).
  \<open>d.get(k, default)\<close> is \<open>dict_get\<close>.
\<close>

definition dict_get :: "(pystr \<times> 'v) list \<Rightarrow> pystr \<Rightarrow> 'v \<Rightarrow> 'v" where
  "dict_get d k dflt = (case map_of d k of None \<Rightarrow> dflt | Some v \<Rightarrow> v)"

subsection \<open>Region identity and field names\<close>

text \<open>\<open>f"region_{i}_{int(region['left'])}_{int(region['top'])}"\<close>.\<close>

definition region_key :: "nat \<Rightarrow> region \<Rightarrow> error + pystr" where
  "region_key i region =
     (case py_int (r_left region) of Inl e \<Rightarrow> Inl e | Inr left_i \<Rightarrow>
      case py_int (r_top region) of Inl e \<Rightarrow> Inl e | Inr top_i \<Rightarrow>
      Inr (lit ''region_'' @ str_int (int i) @ lit ''_'' @ str_int left_i @ lit ''_'' @ str_int top_i))"

text \<open>\<open>f"Field_{i+1}"\<close>.\<close>

definition default_field_name :: "nat \<Rightarrow> pystr" where
  "default_field_name i = lit ''Field_'' @ str_int (int i + 1)"

text \<open>
  The loop of the form \<open>field_names_form\<close>, over \<open>enumerate(regions)\<close> from index \<open>i\<close>.
  \<open>text_input i v\<close> is what the widget of region \<open>i\<close> returns when shown with the value
  \<open>v\<close>. The result is the updated \<open>field_names\<close> and the default names shown, in order.
\<close>

fun field_names_form ::
  "(nat \<Rightarrow> pystr \<Rightarrow> pystr) \<Rightarrow> nat \<Rightarrow> region list \<Rightarrow> (pystr \<times> pystr) list
     \<Rightarrow> error + (pystr \<times> pystr) list \<times> pystr list" where
  "field_names_form text_input i [] field_names = Inr (field_names, [])"
| "field_names_form text_input i (region # rest) field_names =
     (case region_key i region of Inl e \<Rightarrow> Inl e | Inr key \<Rightarrow>
      let default_name = dict_get field_names key (default_field_name i) in
      case field_names_form text_input (Suc i) rest
             (AList.update key (text_input i default_name) field_names) of
        Inl e \<Rightarrow> Inl e
      | Inr (field_names', shown) \<Rightarrow> Inr (field_names', default_name # shown))"

subsection \<open>The coordinate mapper\<close>

definition canvas_width :: int where
  "canvas_width = 800"

text \<open>\<open>canvas_width * (bg_image.height / bg_image.width)\<close>, from \<open>bg_image.size\<close>.\<close>

definition canvas_height :: "int \<times> int \<Rightarrow> error + pynum" where
  "canvas_height bg_size =
     (case bg_size of (bg_w, bg_h) \<Rightarrow>
      case num_truediv (PyInt bg_h) (PyInt bg_w) of Inl e \<Rightarrow> Inl e
      | Inr ratio \<Rightarrow> num_mul (PyInt canvas_width) ratio)"

text \<open>
  \<open>scale_w = original_w / canvas_width\<close> and \<open>scale_h = original_h / canvas_height\<close>.
\<close>

definition scale_factors :: "pynum \<Rightarrow> pynum \<Rightarrow> int \<times> int \<Rightarrow> error + pynum \<times> pynum" where
  "scale_factors cw ch bg_size =
     (case bg_size of (original_w, original_h) \<Rightarrow>
      case num_truediv (PyInt original_w) cw of Inl e \<Rightarrow> Inl e | Inr scale_w \<Rightarrow>
      case num_truediv (PyInt original_h) ch of Inl e \<Rightarrow> Inl e | Inr scale_h \<Rightarrow>
      Inr (scale_w, scale_h))"

text \<open>The dictionary appended to \<open>scaled_boxes\<close> for one region.\<close>

definition scale_box :: "pynum \<Rightarrow> pynum \<Rightarrow> region \<Rightarrow> error + region" where
  "scale_box scale_w scale_h region =
     (case num_mul (r_left region) scale_w of Inl e \<Rightarrow> Inl e | Inr l \<Rightarrow>
      case num_mul (r_top region) scale_h of Inl e \<Rightarrow> Inl e | Inr t \<Rightarrow>
      case num_mul (r_width region) scale_w of Inl e \<Rightarrow> Inl e | Inr w \<Rightarrow>
      case num_mul (r_height region) scale_h of Inl e \<Rightarrow> Inl e | Inr h \<Rightarrow>
      Inr \<lparr>r_left = l, r_top = t, r_width = w, r_height = h\<rparr>)"

text \<open>
  The loop over \<open>enumerate(regions)\<close> of the extraction block, from index \<open>i\<close>: it
  yields \<open>scaled_boxes\<close> and \<open>field_names_list\<close>.
\<close>

fun scale_regions ::
  "(pystr \<times> pystr) list \<Rightarrow> pynum \<Rightarrow> pynum \<Rightarrow> nat \<Rightarrow> region list
     \<Rightarrow> error + region list \<times> pystr list" where
  "scale_regions field_names scale_w scale_h i [] = Inr ([], [])"
| "scale_regions field_names scale_w scale_h i (region # rest) =
     (case region_key i region of Inl e \<Rightarrow> Inl e | Inr key \<Rightarrow>
      case scale_box scale_w scale_h region of Inl e \<Rightarrow> Inl e | Inr box \<Rightarrow>
      case scale_regions field_names scale_w scale_h (Suc i) rest of Inl e \<Rightarrow> Inl e
      | Inr (scaled_boxes, field_names_list) \<Rightarrow>
          Inr (box # scaled_boxes,
               dict_get field_names key (default_field_name i) # field_names_list))"

subsection \<open>The extraction loop and the table\<close>

datatype cell = CInt int | CStr pystr | CMissing

text \<open>
  The inner loop over \<open>enumerate(scaled_boxes)\<close>: \<open>field_names_list[j]\<close> and the box
  \<open>j\<close> come paired, \<open>page_data\<close> is threaded through.
\<close>

fun fill_page ::
  "'img collaborators \<Rightarrow> 'img \<Rightarrow> pystr \<Rightarrow> pystr list \<Rightarrow> (pystr \<times> region) list
     \<Rightarrow> (pystr \<times> cell) list \<Rightarrow> (pystr \<times> cell) list \<times> 'img event list" where
  "fill_page env page_image language opts [] page_data = (page_data, [])"
| "fill_page env page_image language opts ((field_name, box) # rest) page_data =
     (case perform_ocr env page_image box language opts of (text, evs) \<Rightarrow>
      case fill_page env page_image language opts rest
             (AList.update field_name (CStr text) page_data) of
        (page_data', evs') \<Rightarrow> (page_data', evs @ evs'))"

text \<open>The outer loop over \<open>enumerate(st.session_state.pdf_images)\<close>, from index \<open>i\<close>.\<close>

fun all_pages ::
  "'img collaborators \<Rightarrow> pystr \<Rightarrow> pystr list \<Rightarrow> region list \<Rightarrow> pystr list \<Rightarrow> nat
     \<Rightarrow> 'img list \<Rightarrow> (pystr \<times> cell) list list \<times> 'img event list" where
  "all_pages env language opts scaled_boxes field_names_list i [] = ([], [])"
| "all_pages env language opts scaled_boxes field_names_list i (page_image # rest) =
     (case fill_page env page_image language opts (zip field_names_list scaled_boxes)
             [(lit ''Page'', CInt (int i + 1))] of
        (page_data, evs) \<Rightarrow>
      case all_pages env language opts scaled_boxes field_names_list (Suc i) rest of
        (all_pages_data, evs') \<Rightarrow> (page_data # all_pages_data, evs @ evs'))"

text \<open>
  \<open>pd.DataFrame(list_of_dicts)\<close>: the columns are the keys in the order in which they
  first appear, and every row has one cell per column (missing where the row's
  dictionary lacks the key).
\<close>

primrec first_seen :: "'a list \<Rightarrow> 'a list \<Rightarrow> 'a list" where
  "first_seen seen [] = []"
| "first_seen seen (x # xs) =
     (if x \<in> set seen then first_seen seen xs else x # first_seen (x # seen) xs)"

record dataframe =
  df_columns :: "pystr list"
  df_values :: "cell list list"

definition DataFrame :: "(pystr \<times> cell) list list \<Rightarrow> dataframe" where
  "DataFrame dicts =
     (let cols = first_seen [] (concat (map (map fst) dicts))
      in \<lparr>df_columns = cols,
          df_values = map (\<lambda>d. map (\<lambda>c. dict_get d c CMissing) cols) dicts\<rparr>)"

text \<open>The cell of row \<open>i\<close> (from 0) in the column called \<open>name\<close>, if there is one.\<close>

definition df_at :: "dataframe \<Rightarrow> nat \<Rightarrow> pystr \<Rightarrow> cell option" where
  "df_at df i name =
     (if i < length (df_values df) then map_of (zip (df_columns df) (df_values df ! i)) name
      else None)"

text \<open>
  The block run by the extraction button, together with the computation of
  \<open>canvas_height\<close> that precedes it in the same run of the script.
\<close>

definition extract_data ::
  "'img collaborators \<Rightarrow> 'img \<Rightarrow> 'img list \<Rightarrow> region list \<Rightarrow> (pystr \<times> pystr) list
     \<Rightarrow> pystr \<Rightarrow> pystr list \<Rightarrow> error + dataframe \<times> 'img event list" where
  "extract_data env bg_image pdf_images regions field_names language opts =
     (case canvas_height (img_size env bg_image) of Inl e \<Rightarrow> Inl e | Inr ch \<Rightarrow>
      case scale_factors (PyInt canvas_width) ch (img_size env bg_image) of
        Inl e \<Rightarrow> Inl e | Inr (scale_w, scale_h) \<Rightarrow>
      case scale_regions field_names scale_w scale_h 0 regions of
        Inl e \<Rightarrow> Inl e | Inr (scaled_boxes, field_names_list) \<Rightarrow>
      case all_pages env language opts scaled_boxes field_names_list 0 pdf_images of
        (all_pages_data, evs) \<Rightarrow> Inr (DataFrame all_pages_data, evs))"

subsection \<open>The template store\<close>

text \<open>
  What \<open>json.load\<close> returns and \<open>json.dumps\<close> accepts. The text form of the document
  is the standard library's; the template is modelled as the document handed to
  \<open>json.dumps\<close> and obtained from \<open>json.load\<close>.
\<close>

datatype json =
  JNull | JBool bool | JNum pynum | JStr pystr | JArr "json list" | JObj "(pystr \<times> json) list"

text \<open>\<open>template_to_save\<close>, from \<open>canvas_json\<close> and \<open>field_names\<close> of the session.\<close>

definition template_to_save :: "json \<Rightarrow> json \<Rightarrow> json" where
  "template_to_save canvas_json field_names =
     JObj [(lit ''regions'', canvas_json), (lit ''field_names'', field_names)]"

text \<open>
  Loading a template: the new \<open>canvas_json\<close> and \<open>field_names\<close> of the session.
  \<open>.get\<close> exists on a dictionary only.
\<close>

definition load_template :: "json \<Rightarrow> error + json \<times> json" where
  "load_template template_data =
     (case template_data of
        JObj d \<Rightarrow> Inr (dict_get d (lit ''regions'') JNull, dict_get d (lit ''field_names'') (JObj []))
      | _ \<Rightarrow> Inl (Raised (lit ''AttributeError'')))"

text \<open>A \<open>field_names\<close> dictionary of the session as a JSON value.\<close>

definition json_of_names :: "(pystr \<times> pystr) list \<Rightarrow> json" where
  "json_of_names field_names = JObj (map (\<lambda>(k, v). (k, JStr v)) field_names)"

section \<open>Vocabulary of the properties\<close>

text \<open>The calls of the OCR engine among the events of a run.\<close>

fun is_recognize :: "'img event \<Rightarrow> bool" where
  "is_recognize (Recognize _ _) = True"
| "is_recognize (Warning _) = False"

definition ocr_calls :: "'img event list \<Rightarrow> 'img event list" where
  "ocr_calls evs = filter is_recognize evs"

text \<open>
  A bounding box whose width or height, truncated by \<open>int\<close>, is not positive; and a
  region drawn with a width or a height of zero.
\<close>

definition degenerate :: "region \<Rightarrow> bool" where
  "degenerate box \<longleftrightarrow>
     (case py_int (r_width box) of Inr w \<Rightarrow> w \<le> 0 | Inl _ \<Rightarrow> False) \<or>
     (case py_int (r_height box) of Inr h \<Rightarrow> h \<le> 0 | Inl _ \<Rightarrow> False)"

fun is_zero :: "pynum \<Rightarrow> bool" where
  "is_zero (PyInt n) = (n = 0)"
| "is_zero (PyFloat (Fin q)) = (q = 0)"
| "is_zero (PyFloat _) = False"

definition zero_size :: "region \<Rightarrow> bool" where
  "zero_size region \<longleftrightarrow> is_zero (r_width region) \<or> is_zero (r_height region)"

text \<open>
  A stand-in for the libraries, for closed examples: an image is the text written on
  it, cropping at \<open>left\<close> drops that many characters, recognition returns the text and
  fails on an image without text. Pages are 800 by 800 pixels.
\<close>

definition demo_env :: "pystr collaborators" where
  "demo_env =
     \<lparr>img_size = (\<lambda>_. (800, 800)),
      img_mode = (\<lambda>_. lit ''RGB''),
      crop = (\<lambda>img (l, t, r, b). Inr (drop (nat l) img)),
      grayscale = (\<lambda>img. Inr img),
      invert = (\<lambda>img. Inr img),
      image_to_string = (\<lambda>img code.
         if img = [] then Inl (Raised (lit ''TesseractError'')) else Inr img)\<rparr>"

section \<open>Properties\<close>

subsection \<open>Rounding to a double\<close>

lemma two_powi_less_iff: "(2::rat) powi m < 2 powi n \<longleftrightarrow> m < n"
proof
  assume "(2::rat) powi m < 2 powi n"
  show "m < n"
  proof (rule ccontr)
    assume "\<not> m < n"
    then have "n \<le> m" by simp
    then have "(2::rat) powi n \<le> 2 powi m" by (intro power_int_increasing) simp_all
    with \<open>(2::rat) powi m < 2 powi n\<close> show False by simp
  qed
next
  assume "m < n"
  then show "(2::rat) powi m < 2 powi n" by (intro power_int_strict_increasing) simp_all
qed

lemma two_powi_le_iff: "(2::rat) powi m \<le> 2 powi n \<longleftrightarrow> m \<le> n"
  using two_powi_less_iff [of n m] by (auto simp: not_less [symmetric])

lemma two_powi_pos: "(0::rat) < 2 powi k"
  by (simp add: power_int_def)

lemma two_powi_nat: "0 \<le> k \<Longrightarrow> (2::rat) powi k = of_int (2 ^ nat k)"
  by (simp add: power_int_nonneg_exp)

lemma ilog2_bounds:
  assumes "0 < a"
  shows "2 powi ilog2 a \<le> a" and "a < 2 powi (ilog2 a + 1)"
proof -
  obtain n d where qd: "quotient_of a = (n, d)" by (cases "quotient_of a")
  have d: "0 < d" using quotient_of_denom_pos [OF qd] .
  have a: "a = of_int n / of_int d" using quotient_of_div [OF qd] .
  have n: "0 < n" using assms a d by (simp add: zero_less_divide_iff)
  let ?bn = "bitlen n" and ?bd = "bitlen d"
  have bn: "1 \<le> ?bn" using n bitlen_eq_zero_iff [of n] bitlen_nonneg [of n] by linarith
  have bd: "1 \<le> ?bd" using d bitlen_eq_zero_iff [of d] bitlen_nonneg [of d] by linarith
  have N1: "(2::rat) powi (?bn - 1) \<le> of_int n"
    using bitlen_bounds [OF n] bn by (simp add: two_powi_nat del: of_int_power)
  have N2: "of_int n < (2::rat) powi ?bn"
    using bitlen_bounds [OF n] bn by (simp add: two_powi_nat del: of_int_power)
  have D1: "(2::rat) powi (?bd - 1) \<le> of_int d"
    using bitlen_bounds [OF d] bd by (simp add: two_powi_nat del: of_int_power)
  have D2: "of_int d < (2::rat) powi ?bd"
    using bitlen_bounds [OF d] bd by (simp add: two_powi_nat del: of_int_power)
  have dpos: "(0::rat) < of_int d" using d by simp
  have npos: "(0::rat) < of_int n" using n by simp
  have "a < 2 powi ?bn / of_int d" unfolding a using N2 dpos by (simp add: divide_strict_right_mono)
  also have "\<dots> \<le> 2 powi ?bn / 2 powi (?bd - 1)"
    by (rule divide_left_mono [OF D1 less_imp_le [OF two_powi_pos] mult_pos_pos [OF dpos two_powi_pos]])
  also have "\<dots> = 2 powi (?bn - ?bd + 1)"
  proof -
    have e: "?bn - ?bd + 1 = ?bn - (?bd - 1)" by simp
    show ?thesis unfolding e by (rule power_int_diff [symmetric]) simp
  qed
  finally have up: "a < 2 powi (?bn - ?bd + 1)" .
  have "2 powi (?bn - ?bd - 1) = (2::rat) powi (?bn - 1) / 2 powi ?bd"
  proof -
    have e: "?bn - ?bd - 1 = (?bn - 1) - ?bd" by simp
    show ?thesis unfolding e by (rule power_int_diff) simp
  qed
  also have "\<dots> \<le> of_int n / 2 powi ?bd"
    using N1 two_powi_pos [of ?bd] by (simp add: divide_right_mono)
  also have "\<dots> < of_int n / of_int d"
    by (rule divide_strict_left_mono [OF D2 npos mult_pos_pos [OF two_powi_pos dpos]])
  finally have lo: "2 powi (?bn - ?bd - 1) < a" unfolding a .
  have il: "ilog2 a = (if 2 powi (?bn - ?bd) \<le> a then ?bn - ?bd else ?bn - ?bd - 1)"
    by (simp add: ilog2_def qd Let_def)
  show "2 powi ilog2 a \<le> a" using lo by (simp add: il)
  show "a < 2 powi (ilog2 a + 1)" using up by (simp add: il not_le)
qed

lemma ilog2_unique:
  assumes "2 powi k \<le> a" and "a < 2 powi (k + 1)"
  shows "ilog2 a = k"
proof -
  have pos: "0 < a" by (rule less_le_trans [OF two_powi_pos assms(1)])
  from ilog2_bounds [OF pos] have l: "2 powi ilog2 a \<le> a" and u: "a < 2 powi (ilog2 a + 1)" .
  from l assms(2) have "(2::rat) powi ilog2 a < 2 powi (k + 1)" by (rule le_less_trans)
  then have 1: "ilog2 a < k + 1" by (simp add: two_powi_less_iff)
  from assms(1) u have "(2::rat) powi k < 2 powi (ilog2 a + 1)" by (rule le_less_trans)
  then have 2: "k < ilog2 a + 1" by (simp add: two_powi_less_iff)
  from 1 2 show ?thesis by simp
qed

lemma round_half_even_floor: "\<lfloor>x\<rfloor> \<le> round_half_even x" "round_half_even x \<le> \<lfloor>x\<rfloor> + 1"
  by (simp_all add: round_half_even_def Let_def)

lemma round_half_even_of_int: "round_half_even (of_int n) = n"
  by (simp add: round_half_even_def Let_def)

lemma round_half_even_ge:
  assumes "of_int n \<le> x"
  shows "n \<le> round_half_even x"
proof -
  from assms have "n \<le> \<lfloor>x\<rfloor>" by (simp add: le_floor_iff)
  then show ?thesis using round_half_even_floor(1) [of x] by (rule order_trans)
qed

lemma round_half_even_le:
  assumes "x \<le> of_int n"
  shows "round_half_even x \<le> n"
proof (cases "x = of_int n")
  case True
  then show ?thesis by (simp add: round_half_even_of_int)
next
  case False
  with assms have "x < of_int n" by simp
  then have "\<lfloor>x\<rfloor> < n" by (simp add: floor_less_iff)
  with round_half_even_floor(2) [of x] show ?thesis by simp
qed

lemma round_double_normal:
  assumes "2 powi e \<le> q" and "q < 2 powi (e + 1)" and "- 1022 \<le> e"
  shows "round_double q =
     (if (2::rat) powi 1024 \<le> of_int (round_half_even (q / 2 powi (e - 52))) * 2 powi (e - 52)
      then PInf else Fin (of_int (round_half_even (q / 2 powi (e - 52))) * 2 powi (e - 52)))"
proof -
  have pos: "0 < q" by (rule less_le_trans [OF two_powi_pos assms(1)])
  have il: "ilog2 q = e" by (rule ilog2_unique [OF assms(1,2)])
  have ab: "\<bar>q\<bar> = q" using pos by simp
  have mx: "max e (- 1022) = e" using assms(3) by simp
  show ?thesis
    unfolding round_double_def Let_def ab il mx using pos by (simp del: power_int_numeral)
qed

lemma round_double_range:
  assumes lo: "2 powi a \<le> q" and hi: "q \<le> 2 powi b" and a: "- 1022 \<le> a" and b: "b \<le> 1023"
  shows "\<exists>r. round_double q = Fin r \<and> 2 powi a \<le> r \<and> r \<le> 2 powi b"
proof -
  have pos: "0 < q" by (rule less_le_trans [OF two_powi_pos lo])
  define e where "e = ilog2 q"
  from ilog2_bounds [OF pos] have el: "2 powi e \<le> q" and eu: "q < 2 powi (e + 1)"
    by (simp_all add: e_def)
  from lo eu have "(2::rat) powi a < 2 powi (e + 1)" by (rule le_less_trans)
  then have ae: "a \<le> e" by (simp add: two_powi_less_iff)
  from el hi have "(2::rat) powi e \<le> 2 powi b" by (rule order_trans)
  then have eb: "e \<le> b" by (simp add: two_powi_le_iff)
  define u where "u = (2::rat) powi (e - 52)"
  have upos: "0 < u" unfolding u_def by (rule two_powi_pos)
  define m where "m = round_half_even (q / u)"
  have u52: "of_int (2 ^ 52) * u = 2 powi e"
  proof -
    have "(2::rat) powi 52 * 2 powi (e - 52) = 2 powi (52 + (e - 52))"
      by (rule power_int_add [symmetric]) simp
    then show ?thesis by (simp add: u_def)
  qed
  have u53: "of_int (2 ^ 53) * u = 2 powi (e + 1)"
  proof -
    have "(2::rat) powi 53 * 2 powi (e - 52) = 2 powi (53 + (e - 52))"
      by (rule power_int_add [symmetric]) simp
    moreover have "53 + (e - 52) = e + 1" by simp
    ultimately show ?thesis by (simp add: u_def)
  qed
  have "of_int (2 ^ 52) \<le> q / u"
    using el upos u52 by (simp add: pos_le_divide_eq)
  then have m52: "2 ^ 52 \<le> m" unfolding m_def by (rule round_half_even_ge)
  have "q / u \<le> of_int (2 ^ 53)"
    using eu upos u53 by (simp add: pos_divide_le_eq)
  then have m53: "m \<le> 2 ^ 53" unfolding m_def by (rule round_half_even_le)
  define r where "r = of_int m * u"
  have rlo: "2 powi e \<le> r"
  proof -
    have "of_int (2 ^ 52) * u \<le> of_int m * u"
      using m52 upos by (intro mult_right_mono) (simp_all del: of_int_power)
    then show ?thesis by (simp only: u52 r_def)
  qed
  have rhi: "r \<le> 2 powi b"
  proof (cases "e = b")
    case True
    with el hi have q: "q = 2 powi e" by simp
    have "q / u = of_int (2 ^ 52)" using u52 upos by (simp add: q nonzero_divide_eq_eq)
    then have "m = 2 ^ 52" unfolding m_def by (simp only: round_half_even_of_int)
    then have "r = 2 powi e" by (simp only: r_def u52)
    with True show ?thesis by simp
  next
    case False
    with eb have "e + 1 \<le> b" by simp
    then have le: "(2::rat) powi (e + 1) \<le> 2 powi b" by (simp add: two_powi_le_iff)
    have "of_int m * u \<le> of_int (2 ^ 53) * u"
      using m53 upos by (intro mult_right_mono) (simp_all del: of_int_power)
    then have "r \<le> 2 powi (e + 1)" by (simp only: u53 r_def)
    then show ?thesis using le by (rule order_trans)
  qed
  have "(2::rat) powi b < 2 powi 1024" using b by (simp only: two_powi_less_iff)
  with rhi have nov: "\<not> 2 powi 1024 \<le> r" by simp
  have ea: "- 1022 \<le> e" using a ae by simp
  have "round_double q = Fin r"
    using round_double_normal [OF el eu ea] nov by (simp add: r_def m_def u_def)
  moreover have "2 powi a \<le> r"
  proof -
    have "(2::rat) powi a \<le> 2 powi e" using ae by (simp add: two_powi_le_iff)
    then show ?thesis using rlo by (rule order_trans)
  qed
  ultimately show ?thesis using rhi by blast
qed

lemma round_double_exact:
  assumes el: "2 powi e \<le> q" and eu: "q < 2 powi (e + 1)" and e1: "- 1022 \<le> e" and e2: "e \<le> 1023"
    and q: "q = of_int m * 2 powi k" and k: "e - 52 \<le> k"
  shows "round_double q = Fin q"
proof -
  define u where "u = (2::rat) powi (e - 52)"
  have upos: "0 < u" unfolding u_def by (rule two_powi_pos)
  have "(2::rat) powi k = 2 powi (k - (e - 52)) * u"
    unfolding u_def by (rule trans [OF _ power_int_add]) simp_all
  also have "(2::rat) powi (k - (e - 52)) = of_int (2 ^ nat (k - (e - 52)))"
    using k by (simp add: power_int_nonneg_exp)
  finally have "q = of_int (m * 2 ^ nat (k - (e - 52))) * u"
    unfolding q by simp
  then have qu: "q / u = of_int (m * 2 ^ nat (k - (e - 52)))"
    using upos by simp
  have r: "of_int (round_half_even (q / u)) * u = q"
    unfolding qu round_half_even_of_int using qu upos by (simp add: nonzero_divide_eq_eq)
  have "(2::rat) powi (e + 1) \<le> 2 powi 1024" using e2 by (simp only: two_powi_le_iff)
  with eu have "\<not> 2 powi 1024 \<le> q" by simp
  then show ?thesis
    using round_double_normal [OF el eu e1] r by (simp add: u_def)
qed

lemma round_double_int:
  assumes "0 < n" and "n < 2 ^ 53"
  shows "round_double (of_int n) = Fin (of_int n)"
proof -
  let ?q = "of_int n :: rat"
  have pos: "0 < ?q" using assms(1) by simp
  define e where "e = ilog2 ?q"
  from ilog2_bounds [OF pos] have el: "2 powi e \<le> ?q" and eu: "?q < 2 powi (e + 1)"
    by (simp_all add: e_def)
  have "(2::rat) powi 0 \<le> ?q" using assms(1) by simp
  then have "(2::rat) powi 0 < 2 powi (e + 1)" using eu by (rule le_less_trans)
  then have e0: "0 \<le> e" by (simp only: two_powi_less_iff)
  have "?q < of_int (2 ^ 53)" using assms(2) by (simp only: of_int_less_iff)
  moreover have "(of_int (2 ^ 53) :: rat) = 2 powi 53" by simp
  ultimately have "?q < 2 powi 53" by (simp only:)
  with el have "(2::rat) powi e < 2 powi 53" by (rule le_less_trans)
  then have e53: "e < 53" by (simp only: two_powi_less_iff)
  show ?thesis
    by (rule round_double_exact [OF el eu, where m = n and k = 0]) (use e0 e53 in simp_all)
qed

lemma round_half_even_eqI:
  assumes "of_int m - 1 / 2 < x" and "x < of_int m + 1 / 2"
  shows "round_half_even x = m"
proof -
  have f1: "of_int \<lfloor>x\<rfloor> \<le> x" and f2: "x < of_int \<lfloor>x\<rfloor> + 1" by linarith+
  have "(of_int m :: rat) < of_int \<lfloor>x\<rfloor> + 2" using assms(1) f2 by linarith
  then have "(of_int m :: rat) < of_int (\<lfloor>x\<rfloor> + 2)" by simp
  then have a: "m < \<lfloor>x\<rfloor> + 2" by (simp only: of_int_less_iff)
  have "(of_int \<lfloor>x\<rfloor> :: rat) < of_int m + 1" using assms(2) f1 by linarith
  then have "(of_int \<lfloor>x\<rfloor> :: rat) < of_int (m + 1)" by simp
  then have b: "\<lfloor>x\<rfloor> < m + 1" by (simp only: of_int_less_iff)
  from a b consider "\<lfloor>x\<rfloor> = m" | "\<lfloor>x\<rfloor> = m - 1" by linarith
  then show ?thesis
  proof cases
    case 1
    then show ?thesis using assms(2) by (simp add: round_half_even_def Let_def)
  next
    case 2
    then show ?thesis using assms(1) by (simp add: round_half_even_def Let_def)
  qed
qed

lemma round_double_0: "round_double 0 = Fin 0"
  by (simp add: round_double_def)

lemma round_double_numeral:
  "numeral k < (2::int) ^ 53 \<Longrightarrow> round_double (numeral k) = Fin (numeral k)"
  using round_double_int [of "numeral k"] by simp

lemma float_of_int_0: "float_of_int 0 = Inr (Fin 0)"
  by (simp add: float_of_int_def round_double_0)

lemma float_of_int_numeral:
  "numeral k < (2::int) ^ 53 \<Longrightarrow> float_of_int (numeral k) = Inr (Fin (numeral k))"
  by (simp add: float_of_int_def round_double_numeral)

subsection \<open>Language selection\<close>

text \<open>
  C5. The language label is mapped to the OCR language code as
  \<open>English\<close> to \<open>eng\<close>, \<open>Hindi\<close> to \<open>hin\<close> and \<open>English + Hindi\<close> to \<open>eng+hin\<close>, and
  the language select box, which is the configuration layer, yields no label outside
  these three.
\<close>

theorem language_mapping:
  "lang_code (lit ''English'') = lit ''eng'' \<and>
   lang_code (lit ''Hindi'') = lit ''hin'' \<and>
   lang_code (lit ''English + Hindi'') = lit ''eng+hin'' \<and>
   (\<forall>k l. selectbox language_options k = Some l \<longrightarrow>
      l \<in> {lit ''English'', lit ''Hindi'', lit ''English + Hindi''})"
proof -
  have "\<And>k l. selectbox language_options k = Some l \<Longrightarrow>
      l \<in> {lit ''English'', lit ''Hindi'', lit ''English + Hindi''}"
  proof -
    fix k l assume a: "selectbox language_options k = Some l"
    then have "k < 3" by (simp add: selectbox_def language_options_def split: if_splits)
    then have "k = 0 \<or> k = 1 \<or> k = 2" by arith
    with a show "l \<in> {lit ''English'', lit ''Hindi'', lit ''English + Hindi''}"
      by (auto simp: selectbox_def language_options_def)
  qed
  moreover have "lang_code (lit ''English'') = lit ''eng''"
    by (simp add: lang_code_def lit_def)
  moreover have "lang_code (lit ''Hindi'') = lit ''hin''"
    by (simp add: lang_code_def)
  moreover have "lang_code (lit ''English + Hindi'') = lit ''eng+hin''"
    by (simp add: lang_code_def lit_def)
  ultimately show ?thesis by blast
qed

theorem language_mapping_witness:
  "selectbox language_options 1 = Some (lit ''Hindi'') \<and>
   lit ''Hindi'' \<in> {lit ''English'', lit ''Hindi'', lit ''English + Hindi''}"
  using language_mapping by (simp add: selectbox_def language_options_def)

text \<open>
  C10. Every language label other than \<open>Hindi\<close> and \<open>English + Hindi\<close>, known or not,
  makes \<open>perform_ocr\<close> use the language code \<open>eng\<close>: the call behaves exactly as it
  does for \<open>English\<close>, no error comes from the label, and every call of the OCR engine
  carries the code \<open>eng\<close>.
\<close>

theorem unknown_language_is_english:
  assumes "language \<noteq> lit ''Hindi''" and "language \<noteq> lit ''English + Hindi''"
  shows "lang_code language = lit ''eng'' \<and>
         perform_ocr env img box language opts = perform_ocr env img box (lit ''English'') opts \<and>
         (\<forall>im l. Recognize im l \<in> set (snd (perform_ocr env img box language opts)) \<longrightarrow> l = lit ''eng'')"
proof -
  have lc: "lang_code language = lit ''eng''"
    using assms by (simp add: lang_code_def)
  have le: "lang_code (lit ''English'') = lit ''eng''"
    by (simp add: lang_code_def lit_def)
  have t: "perform_ocr_try env img box language opts = perform_ocr_try env img box (lit ''English'') opts"
    by (simp only: perform_ocr_try_def lc le)
  have r: "\<And>im l. Recognize im l \<in> set (snd (perform_ocr_try env img box language opts)) \<Longrightarrow> l = lit ''eng''"
    by (auto simp: perform_ocr_try_def lc split: sum.splits if_splits)
  have r': "\<And>im l. Recognize im l \<in> set (snd (perform_ocr env img box language opts)) \<Longrightarrow> l = lit ''eng''"
    using r by (auto simp: perform_ocr_def split: prod.splits sum.splits option.splits)
  show ?thesis using lc t r' by (auto simp: perform_ocr_def)
qed

theorem unknown_language_is_english_witness:
  "lit ''French'' \<noteq> lit ''Hindi'' \<and> lit ''French'' \<noteq> lit ''English + Hindi'' \<and>
   lang_code (lit ''French'') = lit ''eng'' \<and>
   perform_ocr demo_env (lit ''bonjour'')
     \<lparr>r_left = PyInt 0, r_top = PyInt 0, r_width = PyInt 5, r_height = PyInt 5\<rparr> (lit ''French'') []
     = (lit ''bonjour'', [Recognize (lit ''bonjour'') (lit ''eng'')])"
proof -
  have a: "lit ''French'' \<noteq> lit ''Hindi''" by (simp add: lit_def)
  have b: "lit ''French'' \<noteq> lit ''English + Hindi''" by (simp add: lit_def)
  have c: "perform_ocr demo_env (lit ''bonjour'')
     \<lparr>r_left = PyInt 0, r_top = PyInt 0, r_width = PyInt 5, r_height = PyInt 5\<rparr> (lit ''English'') []
     = (lit ''bonjour'', [Recognize (lit ''bonjour'') (lit ''eng'')])"
    by (simp add: perform_ocr_def perform_ocr_try_def demo_env_def preprocess_image_def lang_code_def
        clean_text_def strip_def replace_newlines_def isspace_def lit_def)
  note th = unknown_language_is_english [OF a b, of demo_env "lit ''bonjour''"
     "\<lparr>r_left = PyInt 0, r_top = PyInt 0, r_width = PyInt 5, r_height = PyInt 5\<rparr>" "[]"]
  from th have l: "lang_code (lit ''French'') = lit ''eng''" by (rule conjunct1)
  from th have e: "perform_ocr demo_env (lit ''bonjour'')
     \<lparr>r_left = PyInt 0, r_top = PyInt 0, r_width = PyInt 5, r_height = PyInt 5\<rparr> (lit ''French'') []
     = perform_ocr demo_env (lit ''bonjour'')
     \<lparr>r_left = PyInt 0, r_top = PyInt 0, r_width = PyInt 5, r_height = PyInt 5\<rparr> (lit ''English'') []"
    by (rule conjunct1 [OF conjunct2])
  from a b l e [unfolded c] show ?thesis by (intro conjI)
qed

subsection \<open>Template store\<close>

text \<open>
  C8. Saving a template and loading the saved document back restores the same region
  document and the same field-name mapping, whatever the two are: the document has
  the keys \<open>regions\<close> and \<open>field_names\<close>, and loading reads the same two keys.
  Equality is equality of the documents as values.
\<close>

theorem template_round_trip:
  "load_template (template_to_save canvas_json field_names) = Inr (canvas_json, field_names)"
  by (simp add: load_template_def template_to_save_def dict_get_def lit_def)

subsection \<open>Text clean-up\<close>

lemma strip_decomp:
  "\<exists>pre suf. t = pre @ strip t @ suf \<and> (\<forall>c \<in> set pre. isspace c) \<and> (\<forall>c \<in> set suf. isspace c)"
proof -
  let ?a = "dropWhile isspace t"
  have 1: "t = takeWhile isspace t @ ?a" by simp
  have 2: "rev ?a = takeWhile isspace (rev ?a) @ dropWhile isspace (rev ?a)" by simp
  then have "?a = rev (dropWhile isspace (rev ?a)) @ rev (takeWhile isspace (rev ?a))"
    by (metis rev_append rev_rev_ident)
  then have "t = takeWhile isspace t @ strip t @ rev (takeWhile isspace (rev ?a))"
    using 1 by (simp add: strip_def)
  moreover have "\<forall>c \<in> set (takeWhile isspace t). isspace c"
    by (auto dest: set_takeWhileD)
  moreover have "\<forall>c \<in> set (rev (takeWhile isspace (rev ?a))). isspace c"
    by (auto dest: set_takeWhileD)
  ultimately show ?thesis by blast
qed

lemma strip_ends:
  assumes "strip t \<noteq> []"
  shows "\<not> isspace (hd (strip t))" "\<not> isspace (last (strip t))"
proof -
  let ?a = "dropWhile isspace t"
  let ?b = "dropWhile isspace (rev ?a)"
  from assms have b: "?b \<noteq> []" by (simp add: strip_def)
  then have hb: "\<not> isspace (hd ?b)" by (rule hd_dropWhile)
  then show "\<not> isspace (last (strip t))"
    using b by (simp add: strip_def last_rev)
  have a: "?a \<noteq> []"
  proof
    assume e: "?a = []"
    have "?b = []" unfolding e by simp
    with b show False by simp
  qed
  then have ha: "\<not> isspace (hd ?a)" by (rule hd_dropWhile)
  have "rev ?a = takeWhile isspace (rev ?a) @ ?b" by simp
  then have "?a = rev ?b @ rev (takeWhile isspace (rev ?a))"
    by (metis rev_append rev_rev_ident)
  then have "hd ?a = hd (rev ?b)" using b by (metis hd_append2 rev_is_Nil_conv)
  with ha show "\<not> isspace (hd (strip t))" by (simp add: strip_def)
qed

lemma isspace_10: "isspace 10" and not_isspace_32_iff: "isspace 32"
  by (simp_all add: isspace_def)

text \<open>
  C6 (as amended). The stored value is the recognised text with leading and trailing
  whitespace removed and then every line feed replaced by one space, character by
  character: it contains no line feed, it neither starts nor ends with whitespace, and
  it has the length of the trimmed text, so that \<open>k\<close> consecutive line feeds inside
  the text become \<open>k\<close> consecutive spaces.
\<close>

theorem clean_text_properties:
  "10 \<notin> set (clean_text t) \<and>
   (clean_text t \<noteq> [] \<longrightarrow> \<not> isspace (hd (clean_text t)) \<and> \<not> isspace (last (clean_text t))) \<and>
   length (clean_text t) = length (strip t) \<and>
   (\<forall>i < length (strip t). clean_text t ! i = (if strip t ! i = 10 then 32 else strip t ! i)) \<and>
   (\<exists>pre suf. t = pre @ strip t @ suf \<and> (\<forall>c \<in> set pre. isspace c) \<and> (\<forall>c \<in> set suf. isspace c))"
proof -
  have 1: "10 \<notin> set (clean_text t)"
    by (auto simp: clean_text_def replace_newlines_def)
  have 2: "\<not> isspace (hd (clean_text t)) \<and> \<not> isspace (last (clean_text t))" if ne: "clean_text t \<noteq> []"
  proof -
    from ne have s: "strip t \<noteq> []" by (simp add: clean_text_def replace_newlines_def)
    from strip_ends [OF s] have h: "hd (strip t) \<noteq> 10" and l: "last (strip t) \<noteq> 10"
      using isspace_10 by auto
    have "hd (clean_text t) = hd (strip t)"
      using s h by (simp add: clean_text_def replace_newlines_def hd_map)
    moreover have "last (clean_text t) = last (strip t)"
      using s l by (simp add: clean_text_def replace_newlines_def last_map)
    ultimately show ?thesis using strip_ends [OF s] by simp
  qed
  have 3: "length (clean_text t) = length (strip t)"
    by (simp add: clean_text_def replace_newlines_def)
  have 4: "\<forall>i < length (strip t). clean_text t ! i = (if strip t ! i = 10 then 32 else strip t ! i)"
    by (simp add: clean_text_def replace_newlines_def)
  from 1 2 3 4 strip_decomp [of t] show ?thesis by blast
qed

theorem clean_text_properties_witness:
  "clean_text [32, 97, 10, 10, 98, 10] = [97, 32, 32, 98] \<and>
   strip [32, 97, 10, 10, 98, 10] = [97, 10, 10, 98] \<and>
   10 \<notin> set (clean_text [32, 97, 10, 10, 98, 10]) \<and>
   \<not> isspace (hd (clean_text [32, 97, 10, 10, 98, 10])) \<and>
   \<not> isspace (last (clean_text [32, 97, 10, 10, 98, 10]))"
  using clean_text_properties [of "[32, 97, 10, 10, 98, 10]"]
  by (simp add: clean_text_def strip_def replace_newlines_def isspace_def)

text \<open>
  C6 as stated does not hold: two consecutive line feeds are not collapsed to a single
  space. The text \<open>a\n\nb\<close> is stored as \<open>a\<close>, two spaces, \<open>b\<close>.
\<close>

theorem clean_text_double_newline:
  "clean_text [97, 10, 10, 98] = [97, 32, 32, 98]"
  by (simp add: clean_text_def strip_def replace_newlines_def isspace_def)

subsection \<open>Degenerate regions\<close>

lemma perform_ocr_guard:
  assumes "\<not> (\<exists>w h. py_int (r_width box) = Inr w \<and> py_int (r_height box) = Inr h \<and> 0 < w \<and> 0 < h)"
  shows "fst (perform_ocr env img box language opts) = [] \<and>
         ocr_calls (snd (perform_ocr env img box language opts)) = []"
  using assms
  by (auto simp: perform_ocr_def perform_ocr_try_def ocr_calls_def split: sum.splits)

lemma degenerate_guard:
  "degenerate box \<Longrightarrow>
   \<not> (\<exists>w h. py_int (r_width box) = Inr w \<and> py_int (r_height box) = Inr h \<and> 0 < w \<and> 0 < h)"
  by (auto simp: degenerate_def split: sum.splits)

lemma num_mul_zero:
  assumes "is_zero x" "num_mul x s = Inr y"
  shows "py_int y = Inr 0 \<or> (\<exists>e. py_int y = Inl e)"
proof (cases x)
  case (PyInt n)
  with assms have n: "n = 0" by simp
  show ?thesis
  proof (cases s)
    case (PyInt m) with assms n \<open>x = PyInt n\<close> show ?thesis by auto
  next
    case (PyFloat f)
    with assms n \<open>x = PyInt n\<close> have "y = PyFloat (fmul (Fin 0) f)"
      by (auto simp: float_of_int_def round_double_0)
    then show ?thesis by (cases f) (auto simp: round_double_0)
  qed
next
  case (PyFloat f)
  with assms obtain q where f: "f = Fin q" "q = 0" by (cases f) auto
  show ?thesis
  proof (cases s)
    case (PyInt m)
    with assms f \<open>x = PyFloat f\<close> obtain g where "float_of_int m = Inr g" "y = PyFloat (fmul (Fin 0) g)"
      by (auto split: sum.splits)
    then show ?thesis by (cases g) (auto simp: round_double_0)
  next
    case (PyFloat g)
    with assms f \<open>x = PyFloat f\<close> have "y = PyFloat (fmul (Fin 0) g)" by auto
    then show ?thesis by (cases g) (auto simp: round_double_0)
  qed
qed

lemma zero_size_guard:
  assumes "zero_size region" "scale_box scale_w scale_h region = Inr box"
  shows "\<not> (\<exists>w h. py_int (r_width box) = Inr w \<and> py_int (r_height box) = Inr h \<and> 0 < w \<and> 0 < h)"
proof -
  from assms(2) have w: "num_mul (r_width region) scale_w = Inr (r_width box)"
    and h: "num_mul (r_height region) scale_h = Inr (r_height box)"
    by (auto simp: scale_box_def split: sum.splits)
  from assms(1) consider "is_zero (r_width region)" | "is_zero (r_height region)"
    by (auto simp: zero_size_def)
  then show ?thesis
  proof cases
    case 1
    from num_mul_zero [OF 1 w] show ?thesis by auto
  next
    case 2
    from num_mul_zero [OF 2 h] show ?thesis by auto
  qed
qed

text \<open>
  C4. A bounding box whose width or height is not positive after truncation makes
  \<open>perform_ocr\<close> return the empty string without calling the OCR engine, for every
  page image, language and set of options; and so does the box obtained by scaling a
  region drawn with a width or a height of zero. \<open>perform_ocr\<close> returns a value in
  every case: it never raises.
\<close>

theorem degenerate_region_empty:
  "(degenerate box \<longrightarrow>
      fst (perform_ocr env img box language opts) = [] \<and>
      ocr_calls (snd (perform_ocr env img box language opts)) = []) \<and>
   (zero_size region \<and> scale_box scale_w scale_h region = Inr box \<longrightarrow>
      fst (perform_ocr env img box language opts) = [] \<and>
      ocr_calls (snd (perform_ocr env img box language opts)) = [])"
proof (rule conjI)
  show "degenerate box \<longrightarrow>
      fst (perform_ocr env img box language opts) = [] \<and>
      ocr_calls (snd (perform_ocr env img box language opts)) = []"
  proof (rule impI)
    assume d: "degenerate box"
    show "fst (perform_ocr env img box language opts) = [] \<and>
      ocr_calls (snd (perform_ocr env img box language opts)) = []"
      by (rule perform_ocr_guard [OF degenerate_guard [OF d]])
  qed
next
  show "zero_size region \<and> scale_box scale_w scale_h region = Inr box \<longrightarrow>
      fst (perform_ocr env img box language opts) = [] \<and>
      ocr_calls (snd (perform_ocr env img box language opts)) = []"
  proof (rule impI)
    assume a: "zero_size region \<and> scale_box scale_w scale_h region = Inr box"
    show "fst (perform_ocr env img box language opts) = [] \<and>
      ocr_calls (snd (perform_ocr env img box language opts)) = []"
      by (rule perform_ocr_guard [OF zero_size_guard [OF conjunct1 [OF a] conjunct2 [OF a]]])
  qed
qed

theorem degenerate_region_empty_witness:
  "zero_size \<lparr>r_left = PyInt 10, r_top = PyInt 10, r_width = PyInt 0, r_height = PyInt 30\<rparr> \<and>
   scale_box (PyFloat (Fin 2)) (PyFloat (Fin 2))
     \<lparr>r_left = PyInt 10, r_top = PyInt 10, r_width = PyInt 0, r_height = PyInt 30\<rparr> =
     Inr \<lparr>r_left = PyFloat (Fin 20), r_top = PyFloat (Fin 20),
          r_width = PyFloat (Fin 0), r_height = PyFloat (Fin 60)\<rparr> \<and>
   degenerate \<lparr>r_left = PyFloat (Fin 20), r_top = PyFloat (Fin 20),
      r_width = PyFloat (Fin 0), r_height = PyFloat (Fin 60)\<rparr> \<and>
   fst (perform_ocr demo_env (lit ''some text'')
     \<lparr>r_left = PyFloat (Fin 20), r_top = PyFloat (Fin 20),
      r_width = PyFloat (Fin 0), r_height = PyFloat (Fin 60)\<rparr> (lit ''English'') []) = [] \<and>
   ocr_calls (snd (perform_ocr demo_env (lit ''some text'')
     \<lparr>r_left = PyFloat (Fin 20), r_top = PyFloat (Fin 20),
      r_width = PyFloat (Fin 0), r_height = PyFloat (Fin 60)\<rparr> (lit ''English'') [])) = []"
proof -
  let ?r = "\<lparr>r_left = PyInt 10, r_top = PyInt 10, r_width = PyInt 0, r_height = PyInt 30\<rparr>"
  let ?b = "\<lparr>r_left = PyFloat (Fin 20), r_top = PyFloat (Fin 20),
          r_width = PyFloat (Fin 0), r_height = PyFloat (Fin 60)\<rparr>"
  have d: "degenerate ?b" by (simp add: degenerate_def)
  have z: "zero_size ?r" by (simp add: zero_size_def)
  have s: "scale_box (PyFloat (Fin 2)) (PyFloat (Fin 2)) ?r = Inr ?b"
    by (simp add: scale_box_def float_of_int_numeral float_of_int_0 round_double_numeral
        round_double_0)
  note th = degenerate_region_empty [of ?b demo_env "lit ''some text''" "lit ''English''" "[]" ?r
     "PyFloat (Fin 2)" "PyFloat (Fin 2)"]
  from th have i1: "degenerate ?b \<longrightarrow>
      fst (perform_ocr demo_env (lit ''some text'') ?b (lit ''English'') []) = [] \<and>
      ocr_calls (snd (perform_ocr demo_env (lit ''some text'') ?b (lit ''English'') [])) = []"
    by (rule conjunct1)
  from mp [OF i1 d] have f1: "fst (perform_ocr demo_env (lit ''some text'') ?b (lit ''English'') []) = []"
    by (rule conjunct1)
  from mp [OF i1 d] have c1: "ocr_calls (snd (perform_ocr demo_env (lit ''some text'') ?b (lit ''English'') [])) = []"
    by (rule conjunct2)
  from z s d f1 c1 show ?thesis by (intro conjI)
qed

subsection \<open>Scale factors\<close>

lemma int_truediv_range:
  assumes "2 powi a \<le> (of_int x / of_int y :: rat)" and "(of_int x / of_int y :: rat) \<le> 2 powi b"
    and "- 1022 \<le> a" and "b \<le> 1023" and "y \<noteq> 0"
  shows "\<exists>r. int_truediv x y = Inr (Fin r) \<and> 2 powi a \<le> r \<and> r \<le> 2 powi b"
proof -
  from round_double_range [OF assms(1-4)] obtain r where
    "round_double (of_int x / of_int y) = Fin r" "2 powi a \<le> r" "r \<le> 2 powi b" by blast
  then show ?thesis using assms(5) by (simp add: int_truediv_def)
qed

lemma float_of_int_small:
  assumes "0 < n" and "n < 2 ^ 53"
  shows "float_of_int n = Inr (Fin (of_int n))"
  by (simp add: float_of_int_def round_double_int [OF assms])

lemma page_ratio_bounds:
  fixes w h :: int
  assumes "0 < w" "w < 2 ^ 31" "0 < h" "h < 2 ^ 31"
  shows "2 powi (- 31) \<le> (of_int h / of_int w :: rat)" and "(of_int h / of_int w :: rat) \<le> 2 powi 31"
proof -
  have w1: "(1::rat) \<le> of_int w" and w2: "(of_int w :: rat) \<le> 2 ^ 31"
    and h1: "(1::rat) \<le> of_int h" and h2: "(of_int h :: rat) \<le> 2 ^ 31"
    using assms by simp_all
  have wpos: "(0::rat) < of_int w" using w1 by linarith
  have "(1 / 2 ^ 31 :: rat) \<le> 1 / of_int w"
    using w2 wpos by (simp add: frac_le)
  also have "\<dots> \<le> of_int h / of_int w"
    using h1 wpos by (simp add: divide_right_mono)
  finally show "2 powi (- 31) \<le> (of_int h / of_int w :: rat)"
    by (simp add: power_int_minus_divide)
  have "(of_int h / of_int w :: rat) \<le> of_int h / 1"
    using w1 h1 by (intro divide_left_mono) simp_all
  also have "\<dots> \<le> 2 ^ 31" using h2 by simp
  finally show "(of_int h / of_int w :: rat) \<le> 2 powi 31" by simp
qed

lemma canvas_height_ok:
  fixes w h :: int
  assumes "0 < w" "w < 2 ^ 31" "0 < h" "h < 2 ^ 31"
  shows "\<exists>ch. canvas_height (w, h) = Inr (PyFloat (Fin ch)) \<and> 2 powi (- 22) \<le> ch \<and> ch \<le> 2 powi 41"
proof -
  have wn: "w \<noteq> 0" using assms(1) by simp
  from int_truediv_range [OF page_ratio_bounds [OF assms] _ _ wn]
  obtain r where r: "int_truediv h w = Inr (Fin r)" and r1: "2 powi (- 31) \<le> r" and r2: "r \<le> 2 powi 31"
    by auto
  have r1': "1 / 2 ^ 31 \<le> r" using r1 by (simp add: power_int_minus_divide)
  have r2': "r \<le> 2 ^ 31" using r2 by simp
  have lo: "2 powi (- 22) \<le> 800 * r"
  proof -
    have "(1 / 2 ^ 22 :: rat) \<le> 800 * (1 / 2 ^ 31)" by simp
    also have "\<dots> \<le> 800 * r" using r1' by (intro mult_left_mono) simp_all
    finally show ?thesis by (simp add: power_int_minus_divide)
  qed
  have hi: "800 * r \<le> 2 powi 41"
  proof -
    have "800 * r \<le> 800 * 2 ^ 31" using r2' by (intro mult_left_mono) simp_all
    also have "\<dots> \<le> (2 ^ 41 :: rat)" by simp
    finally show ?thesis by simp
  qed
  from round_double_range [OF lo hi] obtain ch where
    ch: "round_double (800 * r) = Fin ch" and c1: "2 powi (- 22) \<le> ch" and c2: "ch \<le> 2 powi 41"
    by auto
  have "canvas_height (w, h) = Inr (PyFloat (Fin ch))"
    by (simp add: canvas_height_def canvas_width_def r float_of_int_numeral ch)
  with c1 c2 show ?thesis by blast
qed

lemma scale_factors_ok:
  fixes w h :: int
  assumes "0 < w" "w < 2 ^ 31" "0 < h" "h < 2 ^ 31" and c1: "2 powi (- 22) \<le> ch" and c2: "ch \<le> 2 powi 41"
  shows "\<exists>a b. scale_factors (PyInt canvas_width) (PyFloat (Fin ch)) (w, h) =
           Inr (PyFloat (Fin a), PyFloat (Fin b)) \<and> 0 < a \<and> 0 < b"
proof -
  have w1: "(1::rat) \<le> of_int w" and w2: "(of_int w :: rat) \<le> 2 ^ 31"
    and h1: "(1::rat) \<le> of_int h" and h2: "(of_int h :: rat) \<le> 2 ^ 31"
    using assms(1-4) by simp_all
  have c1': "1 / 2 ^ 22 \<le> ch" using c1 by (simp add: power_int_minus_divide)
  have c2': "ch \<le> 2 ^ 41" using c2 by simp
  have cpos: "0 < ch" using c1' by (rule less_le_trans [rotated]) simp
  have alo: "2 powi (- 10) \<le> (of_int w / of_int 800 :: rat)"
  proof -
    have "(1 / 2 ^ 10 :: rat) \<le> 1 / 800" by simp
    also have "\<dots> \<le> of_int w / 800" using w1 by (simp add: divide_right_mono)
    finally show ?thesis by (simp add: power_int_minus_divide)
  qed
  have ahi: "(of_int w / of_int 800 :: rat) \<le> 2 powi 31"
  proof -
    have "(of_int w / 800 :: rat) \<le> of_int w" using w1 by simp
    also have "\<dots> \<le> 2 ^ 31" by (rule w2)
    finally show ?thesis by simp
  qed
  from int_truediv_range [OF alo ahi] obtain a where
    a: "int_truediv w 800 = Inr (Fin a)" and a1: "2 powi (- 10) \<le> a" by auto
  have apos: "0 < a" by (rule less_le_trans [OF two_powi_pos a1])
  have blo: "2 powi (- 41) \<le> of_int h / ch"
  proof -
    have "1 / 2 ^ 41 \<le> of_int h / ch"
      using h1 cpos c2' by (intro frac_le) simp_all
    then show ?thesis by (simp add: power_int_minus_divide)
  qed
  have bhi: "of_int h / ch \<le> 2 powi 53"
  proof -
    have "of_int h / ch \<le> 2 ^ 31 / (1 / 2 ^ 22)"
      using h1 h2 c1' by (intro frac_le) simp_all
    also have "\<dots> = (2 ^ 53 :: rat)" by simp
    finally show ?thesis by simp
  qed
  from round_double_range [OF blo bhi] obtain b where
    b: "round_double (of_int h / ch) = Fin b" and b1: "2 powi (- 41) \<le> b" by auto
  have bpos: "0 < b" by (rule less_le_trans [OF two_powi_pos b1])
  have h53: "h < 2 ^ 53" using assms(4) by simp
  have cn: "ch \<noteq> 0" using cpos by simp
  have "scale_factors (PyInt canvas_width) (PyFloat (Fin ch)) (w, h) =
           Inr (PyFloat (Fin a), PyFloat (Fin b))"
    by (simp add: scale_factors_def canvas_width_def a float_of_int_small [OF assms(3) h53] cn b)
  with apos bpos show ?thesis by blast
qed

text \<open>
  C9 as stated does not hold. A background page of width zero makes the division in the
  computation of the canvas height raise \<open>ZeroDivisionError\<close>, not a
  \<open>DegenerateGeometry\<close> error; and a positive canvas width is not enough for the mapper
  to succeed: on a page of height zero the canvas height is \<open>0.0\<close> and the division
  \<open>original_h / canvas_height\<close> raises \<open>ZeroDivisionError\<close>.
\<close>

theorem zero_width_page_unguarded:
  "canvas_height (0, 1754) = Inl ZeroDivisionError \<and>
   canvas_height (0, 1754) \<noteq> Inl DegenerateGeometry \<and>
   canvas_height (1600, 0) = Inr (PyFloat (Fin 0)) \<and>
   scale_factors (PyInt canvas_width) (PyFloat (Fin 0)) (1600, 0) = Inl ZeroDivisionError"
  by (simp add: canvas_height_def scale_factors_def canvas_width_def int_truediv_def
      DegenerateGeometry_def round_double_0 round_double_numeral float_of_int_0
      float_of_int_numeral)

text \<open>
  C9 (as amended). With the canvas width of 800 and a background page whose pixel width
  and height are positive (and below \<open>2\<^sup>3\<^sup>1\<close>), the canvas height and both scale
  factors are computed without an error and are positive finite floats; for a page of
  width zero the computation of the canvas height raises \<open>ZeroDivisionError\<close>.
\<close>

theorem scale_factors_succeed:
  fixes w h :: int
  shows "(0 < w \<and> w < 2 ^ 31 \<and> 0 < h \<and> h < 2 ^ 31 \<longrightarrow>
     (\<exists>ch a b. canvas_height (w, h) = Inr (PyFloat (Fin ch)) \<and> 0 < ch \<and>
        scale_factors (PyInt canvas_width) (PyFloat (Fin ch)) (w, h) =
          Inr (PyFloat (Fin a), PyFloat (Fin b)) \<and> 0 < a \<and> 0 < b)) \<and>
   canvas_height (0, h) = Inl ZeroDivisionError"
proof (rule conjI)
  show "canvas_height (0, h) = Inl ZeroDivisionError"
    by (simp add: canvas_height_def int_truediv_def)
  show "0 < w \<and> w < 2 ^ 31 \<and> 0 < h \<and> h < 2 ^ 31 \<longrightarrow>
     (\<exists>ch a b. canvas_height (w, h) = Inr (PyFloat (Fin ch)) \<and> 0 < ch \<and>
        scale_factors (PyInt canvas_width) (PyFloat (Fin ch)) (w, h) =
          Inr (PyFloat (Fin a), PyFloat (Fin b)) \<and> 0 < a \<and> 0 < b)"
  proof (rule impI)
    assume "0 < w \<and> w < 2 ^ 31 \<and> 0 < h \<and> h < 2 ^ 31"
    then have d: "0 < w" "w < 2 ^ 31" "0 < h" "h < 2 ^ 31" by simp_all
    from canvas_height_ok [OF d] obtain ch where ch: "canvas_height (w, h) = Inr (PyFloat (Fin ch))"
      and c1: "2 powi (- 22) \<le> ch" and c2: "ch \<le> 2 powi 41" by blast
    have cpos: "0 < ch" by (rule less_le_trans [OF two_powi_pos c1])
    from scale_factors_ok [OF d c1 c2] obtain a b where
      "scale_factors (PyInt canvas_width) (PyFloat (Fin ch)) (w, h) =
          Inr (PyFloat (Fin a), PyFloat (Fin b))" "0 < a" "0 < b" by blast
    with ch cpos show "\<exists>ch a b. canvas_height (w, h) = Inr (PyFloat (Fin ch)) \<and> 0 < ch \<and>
        scale_factors (PyInt canvas_width) (PyFloat (Fin ch)) (w, h) =
          Inr (PyFloat (Fin a), PyFloat (Fin b)) \<and> 0 < a \<and> 0 < b" by blast
  qed
qed

theorem scale_factors_succeed_witness:
  "(0::int) < 1600 \<and> (1600::int) < 2 ^ 31 \<and>
   (\<exists>ch a b. canvas_height (1600, 1600) = Inr (PyFloat (Fin ch)) \<and> 0 < ch \<and>
        scale_factors (PyInt canvas_width) (PyFloat (Fin ch)) (1600, 1600) =
          Inr (PyFloat (Fin a), PyFloat (Fin b)) \<and> 0 < a \<and> 0 < b) \<and>
   canvas_height (1600, 1600) = Inr (PyFloat (Fin 800))"
proof -
  have a: "(0::int) < 1600 \<and> (1600::int) < 2 ^ 31 \<and> (0::int) < 1600 \<and> (1600::int) < 2 ^ 31"
    by simp
  have c: "canvas_height (1600, 1600) = Inr (PyFloat (Fin 800))"
    using round_double_int [of 1]
    by (simp add: canvas_height_def canvas_width_def int_truediv_def float_of_int_numeral
        round_double_numeral)
  from mp [OF conjunct1 [OF scale_factors_succeed [of 1600 1600]] a] a c
  show ?thesis by (intro conjI) simp_all
qed

end
